theory Spec2Isabelle
  imports Complex_Main "HOL-Library.Word" "HOL-Library.Multiset"
begin

unbundle bit_operations_syntax

section \<open>JavaScript values used by the similarity engine\<close>

subsection \<open>Numbers\<close>

text \<open>
  A JavaScript \<open>number\<close> that arises as a quotient of two collection sizes, or as a
  difference of two such quotients, is a finite value, an infinity or NaN. Finite values
  are kept as exact rationals. The quotients compared in the code have a denominator
  bounded by the size of a \<open>Set\<close>; for such operands the double-precision quotient and
  the literals 0.3, 0.5, 0.7 and 0.8 compare exactly as the rationals do, and distinct
  quotients stay distinct, so every comparison of the code is decided as written here.
\<close>

datatype number = Num rat | PosInf | NegInf | NaN

text \<open>\<open>a / b\<close> for two sizes: \<open>0 / 0\<close> is NaN and \<open>n / 0\<close> is Infinity.\<close>

definition size_div :: "nat \<Rightarrow> nat \<Rightarrow> number" where
  "size_div a b =
     (if b = 0 then (if a = 0 then NaN else PosInf) else Num (of_nat a / of_nat b))"

fun num_sub :: "number \<Rightarrow> number \<Rightarrow> number" where
  "num_sub NaN y = NaN"
| "num_sub x NaN = NaN"
| "num_sub (Num a) (Num b) = Num (a - b)"
| "num_sub (Num a) PosInf = NegInf"
| "num_sub (Num a) NegInf = PosInf"
| "num_sub PosInf PosInf = NaN"
| "num_sub PosInf y = PosInf"
| "num_sub NegInf NegInf = NaN"
| "num_sub NegInf y = NegInf"

text \<open>\<open>x > y\<close>: false whenever an operand is NaN.\<close>

fun num_gt :: "number \<Rightarrow> number \<Rightarrow> bool" where
  "num_gt NaN y = False"
| "num_gt x NaN = False"
| "num_gt (Num a) (Num b) = (b < a)"
| "num_gt PosInf PosInf = False"
| "num_gt PosInf y = True"
| "num_gt x PosInf = False"
| "num_gt NegInf y = False"
| "num_gt x NegInf = True"

subsection \<open>Strings\<close>

text \<open>
  Source text is modelled as a list of characters over the ASCII range, the range in
  which \<open>toLowerCase\<close>, \<open>\w\<close>, \<open>\s\<close> and \<open>\d\<close> are given by the tables below.
\<close>

definition toLowerCase_char :: "char \<Rightarrow> char" where
  "toLowerCase_char c =
     (case map_of (zip ''ABCDEFGHIJKLMNOPQRSTUVWXYZ'' ''abcdefghijklmnopqrstuvwxyz'') c of
        Some l \<Rightarrow> l
      | None \<Rightarrow> c)"

definition toLowerCase :: "string \<Rightarrow> string" where
  "toLowerCase s = map toLowerCase_char s"

text \<open>The character classes \<open>\d\<close>, \<open>\w\<close> and \<open>\s\<close>.\<close>

definition is_digit :: "char \<Rightarrow> bool" where
  "is_digit c = (c \<in> set ''0123456789'')"

definition is_word :: "char \<Rightarrow> bool" where
  "is_word c =
     (c \<in> set ''abcdefghijklmnopqrstuvwxyzABCDEFGHIJKLMNOPQRSTUVWXYZ0123456789_'')"

definition is_space :: "char \<Rightarrow> bool" where
  "is_space c = (c \<in> set [CHR '' '', CHR 0x09, CHR 0x0A, CHR 0x0B, CHR 0x0C, CHR 0x0D])"

text \<open>Line terminators, which \<open>.\<close> does not match and before which \<open>$\<close> matches
  under the \<open>m\<close> flag.\<close>

definition is_line_terminator :: "char \<Rightarrow> bool" where
  "is_line_terminator c = (c = CHR 0x0A \<or> c = CHR 0x0D)"

text \<open>
  \<open>s.split(re)\<close> for a regular expression matching exactly one character of the class
  \<open>sep\<close>: every separator ends a piece, so adjacent separators give empty pieces and
  the empty string gives one empty piece.
\<close>

fun split_on :: "(char \<Rightarrow> bool) \<Rightarrow> string \<Rightarrow> string list" where
  "split_on sep [] = [[]]"
| "split_on sep (c # cs) =
     (if sep c then [] # split_on sep cs
      else (case split_on sep cs of
              [] \<Rightarrow> [[c]]
            | piece # pieces \<Rightarrow> (c # piece) # pieces))"

text \<open>\<open>parts.join(sep)\<close>.\<close>

fun join :: "string \<Rightarrow> string list \<Rightarrow> string" where
  "join sep [] = []"
| "join sep [x] = x"
| "join sep (x # y # ys) = x @ sep @ join sep (y # ys)"

subsection \<open>Sets and arrays\<close>

text \<open>
  A JavaScript \<open>Set\<close> keeps its elements in insertion order without repetition; it is
  modelled as the list of its elements in iteration order, and \<open>size\<close> is the length.
\<close>

definition Set_add :: "'a list \<Rightarrow> 'a \<Rightarrow> 'a list" where
  "Set_add s x = (if x \<in> set s then s else s @ [x])"

definition new_Set :: "'a list \<Rightarrow> 'a list" where
  "new_Set xs = foldl Set_add [] xs"

text \<open>
  \<open>Array.prototype.sort(cmp)\<close> is a stable sort: with a consistent comparator the
  result is the one arrangement in which \<open>x\<close> stands after \<open>y\<close> exactly when
  \<open>cmp(x, y) > 0\<close> or the two compare equal and \<open>x\<close> came later. A comparator result
  of NaN counts as \<open>+0\<close>. Stable insertion computes that arrangement.
\<close>

fun sort_insert :: "('a \<Rightarrow> 'a \<Rightarrow> number) \<Rightarrow> 'a \<Rightarrow> 'a list \<Rightarrow> 'a list" where
  "sort_insert cmp x [] = [x]"
| "sort_insert cmp x (y # ys) =
     (if num_gt (cmp x y) (Num 0) then y # sort_insert cmp x ys else x # y # ys)"

definition array_sort :: "('a \<Rightarrow> 'a \<Rightarrow> number) \<Rightarrow> 'a list \<Rightarrow> 'a list" where
  "array_sort cmp xs = foldr (sort_insert cmp) xs []"

section \<open>Data model\<close>

record Snippet =
  id_field :: string
  title :: string
  code :: string
  language :: string
  description :: "string option"
  tags :: "string list"
  createdAt :: string

record AISuggestion =
  snippet :: Snippet
  reason :: string
  confidence :: number
  context_field :: string

section \<open>Server: similarity scorer, explanation generator and suggestion ranker\<close>

definition tokenizeCode :: "string \<Rightarrow> string list" where
  "tokenizeCode c =
     filter (\<lambda>token. token \<notin> set [''function'', ''const'', ''let'', ''var'', ''if'', ''else'',
                                    ''for'', ''while'', ''return'', ''class'', ''import'', ''export''])
       (filter (\<lambda>token. length token > 2)
          (split_on (\<lambda>ch. \<not> is_word ch) (toLowerCase c)))"

definition calculateSimilarity :: "string \<Rightarrow> string \<Rightarrow> number" where
  "calculateSimilarity code1 code2 =
     (let tokens1 = tokenizeCode code1;
          tokens2 = tokenizeCode code2;
          set1 = new_Set tokens1;
          set2 = new_Set tokens2;
          intersection = new_Set (filter (\<lambda>x. x \<in> set set2) set1);
          union = new_Set (set1 @ set2)
      in if length union = 0 then Num 0
         else size_div (length intersection) (length union))"

definition getSimilarityReason :: "number \<Rightarrow> string" where
  "getSimilarityReason similarity =
     (if num_gt similarity (Num (7 / 10)) then ''Very similar implementation''
      else if num_gt similarity (Num (5 / 10)) then ''Similar logic and structure''
      else if num_gt similarity (Num (3 / 10)) then ''Related code patterns''
      else ''Some common elements'')"

definition getCodeContext :: "string \<Rightarrow> string \<Rightarrow> string" where
  "getCodeContext snippetCode currentCode =
     (let snippetTokens = new_Set (tokenizeCode snippetCode);
          currentTokens = new_Set (tokenizeCode currentCode);
          common = filter (\<lambda>token. token \<in> set currentTokens) snippetTokens
      in if length common > 0
         then ''Common patterns: '' @ join '', '' (take 3 common)
         else ''Structural similarity detected'')"

text \<open>The \<open>for\<close> loop of \<open>analyzeSimilarity\<close>: \<open>suggestions\<close> is the array built so far.\<close>

fun analyze_loop :: "string \<Rightarrow> Snippet list \<Rightarrow> AISuggestion list \<Rightarrow> AISuggestion list" where
  "analyze_loop currentCode [] suggestions = suggestions"
| "analyze_loop currentCode (s # rest) suggestions =
     (let similarity = calculateSimilarity currentCode (code s)
      in analyze_loop currentCode rest
           (if num_gt similarity (Num (3 / 10))
            then suggestions @
                 [\<lparr>snippet = s,
                   reason = getSimilarityReason similarity,
                   confidence = similarity,
                   context_field = getCodeContext (code s) currentCode\<rparr>]
            else suggestions))"

text \<open>The comparator \<open>(a, b) => b.confidence - a.confidence\<close>.\<close>

definition by_confidence_desc :: "AISuggestion \<Rightarrow> AISuggestion \<Rightarrow> number" where
  "by_confidence_desc a b = num_sub (confidence b) (confidence a)"

definition analyzeSimilarity :: "string \<Rightarrow> Snippet list \<Rightarrow> AISuggestion list" where
  "analyzeSimilarity currentCode snippets =
     take 5 (array_sort by_confidence_desc (analyze_loop currentCode snippets []))"

section \<open>Capture client: fingerprint, line similarity and the duplicate guard\<close>

subsection \<open>The regular-expression replacements\<close>

text \<open>
  \<open>.replace(/\/\/.*$/gm, '')\<close>: at every \<open>//\<close> the rest of the line is removed, up to
  but not including the line terminator (or up to the end of the input).
\<close>

function strip_line_comments :: "string \<Rightarrow> string" where
  "strip_line_comments [] = []"
| "strip_line_comments [c] = [c]"
| "strip_line_comments (a # b # cs) =
     (if a = CHR ''/'' \<and> b = CHR ''/''
      then strip_line_comments (dropWhile (\<lambda>c. \<not> is_line_terminator c) cs)
      else a # strip_line_comments (b # cs))"
  by pat_completeness auto
termination
  by (relation "measure length") (auto simp: le_imp_less_Suc length_dropWhile_le less_SucI)

text \<open>
  \<open>.replace(/\/\*[\s\S]*?\*\//g, '')\<close>: at every \<open>/*\<close> the text through the first
  following \<open>*/\<close> is removed; a \<open>/*\<close> that is never closed does not match and stays.
\<close>

fun after_comment_end :: "string \<Rightarrow> string option" where
  "after_comment_end [] = None"
| "after_comment_end [c] = None"
| "after_comment_end (a # b # cs) =
     (if a = CHR ''*'' \<and> b = CHR ''/'' then Some cs else after_comment_end (b # cs))"

function strip_block_comments :: "string \<Rightarrow> string" where
  "strip_block_comments [] = []"
| "strip_block_comments [c] = [c]"
| "strip_block_comments (a # b # cs) =
     (if a = CHR ''/'' \<and> b = CHR ''*''
      then (case after_comment_end cs of
              Some rest \<Rightarrow> strip_block_comments rest
            | None \<Rightarrow> a # strip_block_comments (b # cs))
      else a # strip_block_comments (b # cs))"
  by pat_completeness auto
termination
proof (relation "measure length")
  fix a b :: char and cs rest :: string
  assume "after_comment_end cs = Some rest"
  then have "length rest < length cs"
    by (induction cs arbitrary: rest rule: after_comment_end.induct) (auto split: if_splits)
  then show "(rest, a # b # cs) \<in> measure length" by simp
qed auto

text \<open>
  \<open>.replace(/\s+/g, r)\<close>: every maximal run of whitespace, line breaks included, becomes
  \<open>r\<close> (a single space in \<open>normalizeCode\<close>, nothing in \<open>generateCodeHash\<close>).
\<close>

function replace_whitespace :: "string \<Rightarrow> string \<Rightarrow> string" where
  "replace_whitespace r [] = []"
| "replace_whitespace r (c # cs) =
     (if is_space c then r @ replace_whitespace r (dropWhile is_space cs)
      else c # replace_whitespace r cs)"
  by pat_completeness auto
termination
  by (relation "measure (\<lambda>(r, s). length s)") (auto simp: le_imp_less_Suc length_dropWhile_le)

text \<open>
  \<open>.replace(/"([^"\\]|\\.)*"/g, '""')\<close> and the same for the quote \<open>'\<close>: after an
  opening quote \<open>q\<close> the body is read item by item, an item being a character other
  than \<open>q\<close> and the backslash, or a backslash and one character that is not a line
  terminator; the literal ends at the first \<open>q\<close> standing at an item boundary. A quote
  whose literal does not end does not match and stays.
\<close>

fun after_literal_end :: "char \<Rightarrow> string \<Rightarrow> string option" where
  "after_literal_end q [] = None"
| "after_literal_end q (c # cs) =
     (if c = q then Some cs
      else if c = CHR 0x5C
      then (case cs of
              [] \<Rightarrow> None
            | d # ds \<Rightarrow> if is_line_terminator d then None else after_literal_end q ds)
      else after_literal_end q cs)"

function normalize_strings :: "char \<Rightarrow> string \<Rightarrow> string" where
  "normalize_strings q [] = []"
| "normalize_strings q (c # cs) =
     (if c = q
      then (case after_literal_end q cs of
              Some rest \<Rightarrow> q # q # normalize_strings q rest
            | None \<Rightarrow> c # normalize_strings q cs)
      else c # normalize_strings q cs)"
  by pat_completeness auto
termination
proof (relation "measure (\<lambda>(q, s). length s)")
  fix q c :: char and cs rest :: string
  assume "after_literal_end q cs = Some rest"
  then have "length rest < length cs"
    by (induction q cs arbitrary: rest rule: after_literal_end.induct)
       (fastforce split: if_splits list.splits)+
  then show "((q, rest), (q, c # cs)) \<in> measure (\<lambda>(q, s). length s)" by simp
qed auto

text \<open>
  \<open>.replace(/\b\d+\b/g, '0')\<close>: a maximal run of digits with no word character directly
  before or after it becomes \<open>0\<close>. \<open>prev_word\<close> says whether the character before the
  current position is a word character.
\<close>

function normalize_numbers :: "bool \<Rightarrow> string \<Rightarrow> string" where
  "normalize_numbers prev_word [] = []"
| "normalize_numbers prev_word (c # cs) =
     (if is_digit c \<and> \<not> prev_word
      then (let rest = dropWhile is_digit cs
            in if rest = [] \<or> \<not> is_word (hd rest)
               then CHR ''0'' # normalize_numbers True rest
               else c # normalize_numbers True cs)
      else c # normalize_numbers (is_word c) cs)"
  by pat_completeness auto
termination
  by (relation "measure (\<lambda>(p, s). length s)") (auto simp: le_imp_less_Suc length_dropWhile_le)

definition trim :: "string \<Rightarrow> string" where
  "trim s = rev (dropWhile is_space (rev (dropWhile is_space s)))"

subsection \<open>\<open>simpleHash\<close> and \<open>generateCodeHash\<close>\<close>

text \<open>\<open>n.toString(36)\<close> for a non-negative integer.\<close>

definition digit36 :: "nat \<Rightarrow> char" where
  "digit36 d = ''0123456789abcdefghijklmnopqrstuvwxyz'' ! d"

fun toString36 :: "nat \<Rightarrow> string" where
  "toString36 n =
     (if n < 36 then [digit36 n] else toString36 (n div 36) @ [digit36 (n mod 36)])"

declare toString36.simps [simp del]

text \<open>
  One round of the loop: \<open>hash = ((hash << 5) - hash) + char; hash = hash & hash\<close>.
  The bitwise operations keep \<open>hash\<close> a 32-bit two's complement integer, so the round
  is arithmetic modulo \<open>2^32\<close>; \<open>char\<close> is the character code.
\<close>

definition hash_round :: "32 word \<Rightarrow> char \<Rightarrow> 32 word" where
  "hash_round hash ch = (push_bit 5 hash - hash) + of_nat (of_char ch)"

definition simpleHash :: "string \<Rightarrow> string" where
  "simpleHash str = toString36 (nat \<bar>sint (foldl hash_round 0 str)\<bar>)"

definition generateCodeHash :: "string \<Rightarrow> string" where
  "generateCodeHash c =
     (let normalized =
            normalize_numbers False
              (normalize_strings (CHR 0x27)
                 (normalize_strings (CHR 0x22)
                    (replace_whitespace []
                       (strip_block_comments (strip_line_comments (toLowerCase c))))))
      in simpleHash normalized)"

subsection \<open>\<open>calculateCodeSimilarity\<close> and \<open>isCodeAlreadyInVault\<close>\<close>

definition normalizeCode :: "string \<Rightarrow> string" where
  "normalizeCode c =
     trim
       (normalize_numbers False
          (normalize_strings (CHR 0x27)
             (normalize_strings (CHR 0x22)
                (replace_whitespace '' ''
                   (strip_block_comments (strip_line_comments (toLowerCase c)))))))"

definition calculateCodeSimilarity :: "string \<Rightarrow> string \<Rightarrow> number" where
  "calculateCodeSimilarity code1 code2 =
     (let normalized1 = normalizeCode code1;
          normalized2 = normalizeCode code2;
          lines1 = new_Set (filter (\<lambda>line. length line > 5)
                              (split_on (\<lambda>ch. ch = CHR 0x0A) normalized1));
          lines2 = new_Set (filter (\<lambda>line. length line > 5)
                              (split_on (\<lambda>ch. ch = CHR 0x0A) normalized2));
          intersection = new_Set (filter (\<lambda>line. line \<in> set lines2) lines1);
          union = new_Set (lines1 @ lines2)
      in if length union = 0 then Num 0
         else size_div (length intersection) (length union))"

text \<open>
  The loop of \<open>isCodeAlreadyInVault\<close> over the cached snippets: for each snippet first
  the fingerprint comparison, then the similarity threshold. The result records at which
  of the two \<open>return true\<close> statements the loop stopped (they log "Found exact match
  in cache" and "Found highly similar code in cache"), or that it ran to its end.
\<close>

datatype cache_result = FoundExact | FoundSimilar | NotFound

fun cache_loop :: "string \<Rightarrow> string \<Rightarrow> Snippet list \<Rightarrow> cache_result" where
  "cache_loop c codeHash [] = NotFound"
| "cache_loop c codeHash (s # rest) =
     (let snippetHash = generateCodeHash (code s)
      in if codeHash = snippetHash then FoundExact
         else (let similarity = calculateCodeSimilarity c (code s)
               in if num_gt similarity (Num (8 / 10)) then FoundSimilar
                  else cache_loop c codeHash rest))"

text \<open>
  \<open>analyze_reply\<close> is the answer of the server's analysis endpoint: \<open>None\<close> when
  the request fails (the inner \<open>catch\<close>), otherwise the suggestions it returned.
\<close>

definition isCodeAlreadyInVault ::
  "string \<Rightarrow> Snippet list \<Rightarrow> AISuggestion list option \<Rightarrow> bool" where
  "isCodeAlreadyInVault c existingSnippetsCache analyze_reply =
     (let codeHash = generateCodeHash c
      in case cache_loop c codeHash existingSnippetsCache of
           FoundExact \<Rightarrow> True
         | FoundSimilar \<Rightarrow> True
         | NotFound \<Rightarrow>
             (case analyze_reply of
                None \<Rightarrow> False
              | Some suggestions \<Rightarrow>
                  (let highlySimilar =
                         list_ex (\<lambda>s. num_gt (confidence s) (Num (8 / 10))) suggestions
                   in if highlySimilar then True else False)))"

subsection \<open>The recently-processed set and its timers\<close>

text \<open>
  The module state of the extension: the \<open>Set\<close> of recently processed strings, the
  snippet cache, and the pending \<open>setTimeout\<close> callbacks, each with the time in
  milliseconds at which it is due and the string it deletes.
\<close>

record extension_state =
  recentlyProcessed :: "string list"
  existingSnippetsCache :: "Snippet list"
  timers :: "(nat \<times> string) list"

definition Set_delete :: "'a list \<Rightarrow> 'a \<Rightarrow> 'a list" where
  "Set_delete s x = removeAll x s"

text \<open>The answer to \<open>POST /api/snippets\<close>: a created snippet with an id, a response
  without one, or a failed request.\<close>

datatype post_reply = Created Snippet | InvalidResponse | RequestFailed

text \<open>
  What a capture did: skipped because the vault check found the code, skipped by the
  check of the raw code in \<open>processCodeCapture\<close>, skipped by the check of the
  fingerprint in \<open>saveSnippetToVault\<close>, or sent to the server.
\<close>

datatype capture_outcome = SkipInVault | SkipRecentRaw | SkipRecentHash | Posted post_reply

definition isDuplicateCode :: "string \<Rightarrow> extension_state \<Rightarrow> bool" where
  "isDuplicateCode codeOrHash st = (codeOrHash \<in> set (recentlyProcessed st))"

text \<open>
  \<open>saveSnippetToVault\<close> at time \<open>now\<close>. The request body (title, mapped language,
  description, tags) has no influence on the state and is left out.
\<close>

definition saveSnippetToVault ::
  "nat \<Rightarrow> string \<Rightarrow> post_reply \<Rightarrow> extension_state \<Rightarrow> extension_state \<times> capture_outcome" where
  "saveSnippetToVault now c reply st =
     (let codeHash = generateCodeHash c
      in if isDuplicateCode codeHash st then (st, SkipRecentHash)
         else (let st1 = st\<lparr>recentlyProcessed := Set_add (recentlyProcessed st) codeHash,
                            timers := timers st @ [(now + 60000, codeHash)]\<rparr>
               in case reply of
                    Created s \<Rightarrow>
                      (st1\<lparr>existingSnippetsCache := s # existingSnippetsCache st1\<rparr>, Posted reply)
                  | InvalidResponse \<Rightarrow> (st1, Posted reply)
                  | RequestFailed \<Rightarrow> (st1, Posted reply)))"

text \<open>
  \<open>processCodeCapture\<close> at time \<open>now\<close>, the time at which it resumes after the
  vault check; \<open>analyze_reply\<close> and \<open>reply\<close> are the answers of the server to the
  two requests it may send.
\<close>

definition processCodeCapture ::
  "nat \<Rightarrow> string \<Rightarrow> AISuggestion list option \<Rightarrow> post_reply \<Rightarrow> extension_state
     \<Rightarrow> extension_state \<times> capture_outcome" where
  "processCodeCapture now c analyze_reply reply st =
     (let isDuplicate = isCodeAlreadyInVault c (existingSnippetsCache st) analyze_reply
      in if isDuplicate then (st, SkipInVault)
         else if \<not> isDuplicateCode c st then saveSnippetToVault now c reply st
         else (st, SkipRecentRaw))"

text \<open>
  The clock reaches \<open>now\<close>: every callback that is due runs, in the order in which the
  timers were set, and its timer is gone.
\<close>

definition run_callback :: "nat \<Rightarrow> string list \<Rightarrow> nat \<times> string \<Rightarrow> string list" where
  "run_callback now s timer = (if fst timer \<le> now then Set_delete s (snd timer) else s)"

definition advance_clock :: "nat \<Rightarrow> extension_state \<Rightarrow> extension_state" where
  "advance_clock now st =
     st\<lparr>recentlyProcessed := foldl (run_callback now) (recentlyProcessed st) (timers st),
        timers := filter (\<lambda>timer. now < fst timer) (timers st)\<rparr>"

text \<open>
  What can happen to the extension, each at a time: the clock advances, an automatic
  capture runs \<open>processCodeCapture\<close>, a manual capture that has passed its vault check
  runs \<open>saveSnippetToVault\<close>, \<open>loadExistingSnippets\<close> replaces the cache. Before
  an event at time \<open>t\<close> the callbacks due by \<open>t\<close> have run.
\<close>

datatype event =
    Tick nat
  | Capture nat string "AISuggestion list option" post_reply
  | Save nat string post_reply
  | Reload nat "Snippet list"

fun event_time :: "event \<Rightarrow> nat" where
  "event_time (Tick t) = t"
| "event_time (Capture t c a r) = t"
| "event_time (Save t c r) = t"
| "event_time (Reload t ss) = t"

fun step :: "extension_state \<Rightarrow> event \<Rightarrow> extension_state" where
  "step st (Tick t) = advance_clock t st"
| "step st (Capture t c a r) = fst (processCodeCapture t c a r (advance_clock t st))"
| "step st (Save t c r) = fst (saveSnippetToVault t c r (advance_clock t st))"
| "step st (Reload t ss) = (advance_clock t st)\<lparr>existingSnippetsCache := ss\<rparr>"

definition run :: "extension_state \<Rightarrow> event list \<Rightarrow> extension_state" where
  "run st evs = foldl step st evs"

text \<open>The state at activation.\<close>

definition activated :: extension_state where
  "activated = \<lparr>recentlyProcessed = [], existingSnippetsCache = [], timers = []\<rparr>"

section \<open>Desktop renderer: local fallback analysis\<close>

text \<open>The renderer's own \<open>Snippet\<close> and \<open>AISuggestion\<close> interfaces.\<close>

record Snippet_app = Snippet +
  similarity :: "number option"

record AISuggestion_app =
  snippet_app :: Snippet_app
  reason_app :: string
  confidence_app :: number
  context_app :: string

definition isCommonToken :: "string \<Rightarrow> bool" where
  "isCommonToken token =
     (token \<in> set [''function'', ''const'', ''let'', ''var'', ''if'', ''else'', ''for'', ''while'',
                    ''return'', ''class'', ''import'', ''export'', ''from''])"

definition tokenizeCode_app :: "string \<Rightarrow> string list" where
  "tokenizeCode_app c =
     filter (\<lambda>token. length token > 1)
       (map (\<lambda>token. filter (\<lambda>ch. \<not> is_digit ch) token)
          (filter (\<lambda>token. length token > 2 \<and> \<not> isCommonToken token)
             (split_on (\<lambda>ch. \<not> is_word ch) (toLowerCase c))))"

definition calculateCodeSimilarity_app :: "string \<Rightarrow> string \<Rightarrow> number" where
  "calculateCodeSimilarity_app code1 code2 =
     (let tokens1 = tokenizeCode_app code1;
          tokens2 = tokenizeCode_app code2;
          set1 = new_Set tokens1;
          set2 = new_Set tokens2;
          intersection = new_Set (filter (\<lambda>x. x \<in> set set2) set1);
          union = new_Set (set1 @ set2)
      in if length union = 0 then Num 0
         else size_div (length intersection) (length union))"

definition getSimilarityReason_app :: "number \<Rightarrow> string" where
  "getSimilarityReason_app sim =
     (if num_gt sim (Num (7 / 10)) then ''Very similar code structure and logic''
      else if num_gt sim (Num (5 / 10)) then ''Similar implementation approach''
      else if num_gt sim (Num (3 / 10)) then ''Related code patterns''
      else ''Some common elements'')"

definition detectContext :: "string \<Rightarrow> string \<Rightarrow> string" where
  "detectContext snippetCode currentCode =
     (let snippetTokens = tokenizeCode_app snippetCode;
          currentTokens = tokenizeCode_app currentCode;
          commonPatterns =
            filter (\<lambda>token. token \<in> set currentTokens \<and> length token > 3) snippetTokens
      in if length commonPatterns > 0
         then ''Uses similar patterns: '' @ join '', '' (take 3 commonPatterns)
         else ''Similar coding style or structure'')"

text \<open>The part of the component state that \<open>performLocalAnalysis\<close> reads and sets.\<close>

record app_state =
  snippets :: "Snippet_app list"
  aiSuggestions :: "AISuggestion_app list"
  showAIPanel :: bool

text \<open>The \<open>forEach\<close> of \<open>performLocalAnalysis\<close>.\<close>

fun local_loop ::
  "string \<Rightarrow> Snippet_app list \<Rightarrow> AISuggestion_app list \<Rightarrow> AISuggestion_app list" where
  "local_loop c [] suggestions = suggestions"
| "local_loop c (s # rest) suggestions =
     (let sim = calculateCodeSimilarity_app c (code s)
      in local_loop c rest
           (if num_gt sim (Num (3 / 10))
            then suggestions @
                 [\<lparr>snippet_app = s,
                   reason_app = getSimilarityReason_app sim,
                   confidence_app = sim,
                   context_app = detectContext (code s) c\<rparr>]
            else suggestions))"

definition by_confidence_desc_app :: "AISuggestion_app \<Rightarrow> AISuggestion_app \<Rightarrow> number" where
  "by_confidence_desc_app a b = num_sub (confidence_app b) (confidence_app a)"

definition performLocalAnalysis :: "string \<Rightarrow> app_state \<Rightarrow> app_state" where
  "performLocalAnalysis c st =
     (let suggestions = array_sort by_confidence_desc_app (local_loop c (snippets st) [])
      in st\<lparr>aiSuggestions := take 3 suggestions,
             showAIPanel := (length suggestions > 0)\<rparr>)"

section \<open>Auxiliary notions for the statements\<close>

text \<open>The object that each of the two rankers pushes for a retained snippet.\<close>

definition suggestion_for :: "string \<Rightarrow> Snippet \<Rightarrow> AISuggestion" where
  "suggestion_for q s =
     \<lparr>snippet = s,
       reason = getSimilarityReason (calculateSimilarity q (code s)),
       confidence = calculateSimilarity q (code s),
       context_field = getCodeContext (code s) q\<rparr>"

definition suggestion_for_app :: "string \<Rightarrow> Snippet_app \<Rightarrow> AISuggestion_app" where
  "suggestion_for_app q s =
     \<lparr>snippet_app = s,
       reason_app = getSimilarityReason_app (calculateCodeSimilarity_app q (code s)),
       confidence_app = calculateCodeSimilarity_app q (code s),
       context_app = detectContext (code s) q\<rparr>"

text \<open>Sorting key of a finite confidence: descending confidence is ascending key.\<close>

definition desc_key :: "number \<Rightarrow> rat" where
  "desc_key x = (case x of Num r \<Rightarrow> - r | _ \<Rightarrow> 0)"

text \<open>\<open>x \<ge> y\<close> on finite numbers.\<close>

definition num_ge :: "number \<Rightarrow> number \<Rightarrow> bool" where
  "num_ge x y = (case (x, y) of (Num a, Num b) \<Rightarrow> b \<le> a | _ \<Rightarrow> False)"

text \<open>
  A hash is in the recently-processed set exactly when one timer is pending for it.
\<close>

definition timers_match :: "extension_state \<Rightarrow> bool" where
  "timers_match st \<longleftrightarrow>
     distinct (map snd (timers st)) \<and> set (recentlyProcessed st) = snd ` set (timers st)"

text \<open>Stored snippets with a given id and code, and inputs for concrete runs.\<close>

definition stored :: "string \<Rightarrow> string \<Rightarrow> Snippet" where
  "stored i c =
     \<lparr>id_field = i, title = ''untitled'', code = c, language = ''javascript'',
       description = None, tags = [], createdAt = ''2024-01-01T00:00:00.000Z''\<rparr>"

definition stored_app :: "string \<Rightarrow> string \<Rightarrow> Snippet_app" where
  "stored_app i c =
     \<lparr>id_field = i, title = ''untitled'', code = c, language = ''javascript'',
       description = None, tags = [], createdAt = ''2024-01-01T00:00:00.000Z'',
       similarity = None\<rparr>"

definition example_query :: string where
  "example_query = ''fetch json array''"

definition example_corpus :: "Snippet list" where
  "example_corpus =
     [stored ''1'' ''fetch header json'',
      stored ''2'' ''unrelated words here'',
      stored ''3'' ''json fetch footer'',
      stored ''4'' ''Array(fetch, JSON)'',
      stored ''5'' ''fetch json'',
      stored ''6'' ''array json parser'',
      stored ''7'' ''fetch array socket'',
      stored ''8'' ''fetch'']"

text \<open>
  A candidate of ten lines and a stored snippet made of the first nine of them. Every
  line is already in normalized form and longer than 5 characters; the tenth line holds
  six of the fifteen tokens.
\<close>

definition ten_lines :: string where
  "ten_lines = ''alpha();\<newline>bravo();\<newline>charlie();\<newline>delta();\<newline>foxtrot();\<newline>golf();\<newline>hotel();\<newline>india();\<newline>juliet();\<newline>kilo(lima, mike, november, oscar, papa);''"

definition nine_lines :: string where
  "nine_lines = ''alpha();\<newline>bravo();\<newline>charlie();\<newline>delta();\<newline>foxtrot();\<newline>golf();\<newline>hotel();\<newline>india();\<newline>juliet();''"

text \<open>
  A run of the extension: the candidate \<open>const x = 1;\<close> is captured at time 1000 while
  the server is down, and the state after that capture; then other events follow.
\<close>

definition after_first_capture :: extension_state where
  "after_first_capture =
     \<lparr>recentlyProcessed = [''6z185p''], existingSnippetsCache = [],
       timers = [(61000, ''6z185p'')]\<rparr>"

definition later_events :: "event list" where
  "later_events =
     [Tick 2000, Reload 3000 [], Capture 5000 ''let y = 3;'' None InvalidResponse]"

text \<open>A renderer state with six cached snippets.\<close>

definition example_snippets_app :: "Snippet_app list" where
  "example_snippets_app =
     [stored_app ''1'' ''fetch header json'',
      stored_app ''2'' ''unrelated words here'',
      stored_app ''3'' ''json fetch footer'',
      stored_app ''4'' ''Array(fetch, JSON)'',
      stored_app ''5'' ''fetch json'',
      stored_app ''6'' ''array json parser'']"

definition example_app_state :: app_state where
  "example_app_state =
     \<lparr>snippets = example_snippets_app, aiSuggestions = [], showAIPanel = False\<rparr>"

section \<open>Sets and sorting\<close>

lemma set_Set_add: "set (Set_add s x) = insert x (set s)"
  by (auto simp: Set_add_def)

lemma distinct_Set_add: "distinct s \<Longrightarrow> distinct (Set_add s x)"
  by (auto simp: Set_add_def)

lemma set_foldl_Set_add: "set (foldl Set_add s xs) = set s \<union> set xs"
  by (induction xs arbitrary: s) (auto simp: set_Set_add)

lemma distinct_foldl_Set_add: "distinct s \<Longrightarrow> distinct (foldl Set_add s xs)"
  by (induction xs arbitrary: s) (auto simp: distinct_Set_add)

lemma set_new_Set: "set (new_Set xs) = set xs"
  by (simp add: new_Set_def set_foldl_Set_add)

lemma distinct_new_Set: "distinct (new_Set xs)"
  by (simp add: new_Set_def distinct_foldl_Set_add)

lemma length_new_Set: "length (new_Set xs) = card (set xs)"
  by (metis distinct_card distinct_new_Set set_new_Set)

lemma new_Set_eq_Nil: "new_Set xs = [] \<longleftrightarrow> xs = []"
  by (metis set_new_Set set_empty)

text \<open>The Jaccard quotient of two sets, as all three scorers compute it.\<close>

lemma jaccard_Num:
  "\<exists>r. (if length (new_Set (new_Set xs @ new_Set ys)) = 0 then Num 0
         else size_div (length (new_Set (filter (\<lambda>x. x \<in> set (new_Set ys)) (new_Set xs))))
                (length (new_Set (new_Set xs @ new_Set ys)))) = Num r
       \<and> 0 \<le> r \<and> r \<le> 1"
proof -
  have le: "card (set ys \<inter> set xs) \<le> card (set xs \<union> set ys)"
    by (rule card_mono) auto
  have eq: "{x \<in> set xs. x \<in> set ys} = set ys \<inter> set xs" by auto
  show ?thesis
    using le
    by (auto simp: size_div_def length_new_Set set_new_Set eq divide_le_eq_1 new_Set_eq_Nil)
qed

lemma set_sort_insert: "set (sort_insert cmp x ys) = insert x (set ys)"
  by (induction ys) auto

lemma set_array_sort: "set (array_sort cmp xs) = set xs"
  by (induction xs) (auto simp: array_sort_def set_sort_insert)

text \<open>On finite confidences the comparator sort is the stable sort by descending value.\<close>

lemma sort_insert_insort_key:
  assumes "\<forall>y \<in> set (x # ys). \<exists>r. conf y = Num r"
  shows "sort_insert (\<lambda>a b. num_sub (conf b) (conf a)) x ys
           = insort_key (\<lambda>s. desc_key (conf s)) x ys"
  using assms by (induction ys) (auto simp: desc_key_def)

lemma array_sort_sort_key:
  assumes "\<forall>y \<in> set xs. \<exists>r. conf y = Num r"
  shows "array_sort (\<lambda>a b. num_sub (conf b) (conf a)) xs = sort_key (\<lambda>s. desc_key (conf s)) xs"
  using assms
proof (induction xs)
  case Nil
  show ?case by (simp add: array_sort_def)
next
  case (Cons x xs)
  let ?cmp = "\<lambda>a b. num_sub (conf b) (conf a)" and ?key = "\<lambda>s. desc_key (conf s)"
  have tail: "array_sort ?cmp xs = sort_key ?key xs"
    using Cons by simp
  have "\<forall>y \<in> set (x # sort_key ?key xs). \<exists>r. conf y = Num r"
    using Cons.prems by simp
  then have "sort_insert ?cmp x (sort_key ?key xs) = insort_key ?key x (sort_key ?key xs)"
    by (rule sort_insert_insort_key)
  with tail show ?case
    by (simp add: array_sort_def)
qed

lemma sorted_desc_key:
  assumes "\<forall>y \<in> set xs. \<exists>r. conf y = Num r" and "sorted (map (\<lambda>s. desc_key (conf s)) xs)"
  shows "sorted_wrt (\<lambda>a b. num_ge (conf a) (conf b)) xs"
  using assms
  by (induction xs) (auto simp: num_ge_def desc_key_def split: number.splits)

lemma filter_not_finite:
  assumes "\<forall>y \<in> set xs. \<exists>r. conf y = Num r" and "\<not> (\<exists>r. k = Num r)"
  shows "filter (\<lambda>s. conf s = k) xs = []"
  using assms by (induction xs) auto

lemma array_sort_sorted:
  assumes "\<forall>y \<in> set xs. \<exists>r. conf y = Num r"
  shows "sorted_wrt (\<lambda>a b. num_ge (conf a) (conf b))
           (array_sort (\<lambda>a b. num_sub (conf b) (conf a)) xs)"
proof -
  have "\<forall>y \<in> set (sort_key (\<lambda>s. desc_key (conf s)) xs). \<exists>r. conf y = Num r"
    using assms by simp
  then have "sorted_wrt (\<lambda>a b. num_ge (conf a) (conf b)) (sort_key (\<lambda>s. desc_key (conf s)) xs)"
    by (rule sorted_desc_key) simp
  then show ?thesis
    by (simp add: array_sort_sort_key [OF assms])
qed

lemma array_sort_mset:
  assumes "\<forall>y \<in> set xs. \<exists>r. conf y = Num r"
  shows "mset (array_sort (\<lambda>a b. num_sub (conf b) (conf a)) xs) = mset xs"
  by (simp add: array_sort_sort_key [OF assms])

lemma array_sort_stable:
  assumes "\<forall>y \<in> set xs. \<exists>r. conf y = Num r"
  shows "filter (\<lambda>s. conf s = k) (array_sort (\<lambda>a b. num_sub (conf b) (conf a)) xs)
           = filter (\<lambda>s. conf s = k) xs"
proof (cases "\<exists>r. k = Num r")
  case True
  then obtain r where k: "k = Num r" by blast
  have narrow: "filter (\<lambda>s. conf s = k) ys
        = filter (\<lambda>s. conf s = k) (filter (\<lambda>s. desc_key (conf s) = - r) ys)" for ys
    by (induction ys) (auto simp: k desc_key_def)
  have "filter (\<lambda>s. desc_key (conf s) = - r) (sort_key (\<lambda>s. desc_key (conf s)) xs)
        = filter (\<lambda>s. desc_key (conf s) = - r) xs"
    by (rule sort_key_stable)
  then show ?thesis
    using narrow [of xs] narrow [of "sort_key (\<lambda>s. desc_key (conf s)) xs"]
    by (simp add: array_sort_sort_key [OF assms])
next
  case False
  have "\<forall>y \<in> set (array_sort (\<lambda>a b. num_sub (conf b) (conf a)) xs). \<exists>r. conf y = Num r"
    using assms by (simp add: array_sort_sort_key [OF assms])
  then show ?thesis
    using filter_not_finite [OF assms False] filter_not_finite [OF _ False] by simp
qed

section \<open>The similarity scorer\<close>

lemma calculateSimilarity_Num:
  "\<exists>r. calculateSimilarity a b = Num r \<and> 0 \<le> r \<and> r \<le> 1"
  using jaccard_Num [of "tokenizeCode a" "tokenizeCode b"]
  by (simp add: calculateSimilarity_def Let_def)

text \<open>
  C7. The scorer is total. When both inputs tokenize to nothing (the union of the two
  token sets is empty) it returns exactly 0; and on every pair of inputs its result is a
  finite number between 0 and 1, never NaN or an infinity, so the quotient is never taken
  with a zero denominator.
\<close>

theorem calculateSimilarity_total:
  "(set (tokenizeCode code1) \<union> set (tokenizeCode code2) = {}
      \<longrightarrow> calculateSimilarity code1 code2 = Num 0)
   \<and> (\<exists>r. calculateSimilarity code1 code2 = Num r \<and> 0 \<le> r \<and> r \<le> 1)"
proof
  show "set (tokenizeCode code1) \<union> set (tokenizeCode code2) = {}
      \<longrightarrow> calculateSimilarity code1 code2 = Num 0"
    by (simp add: calculateSimilarity_def new_Set_def)
  show "\<exists>r. calculateSimilarity code1 code2 = Num r \<and> 0 \<le> r \<and> r \<le> 1"
    by (rule calculateSimilarity_Num)
qed

theorem calculateSimilarity_total_witness:
  "set (tokenizeCode '''') \<union> set (tokenizeCode ''if (x) { y = 1; }'') = {}
   \<and> calculateSimilarity '''' ''if (x) { y = 1; }'' = Num 0"
proof -
  have a: "tokenizeCode '''' = []" by code_simp
  have b: "tokenizeCode ''if (x) { y = 1; }'' = []" by code_simp
  have e: "set (tokenizeCode '''') \<union> set (tokenizeCode ''if (x) { y = 1; }'') = {}"
    by (simp add: a b)
  with calculateSimilarity_total [of "''''" "''if (x) { y = 1; }''"] show ?thesis
    by blast
qed

section \<open>The suggestion ranker\<close>

lemma analyze_loop_append:
  "analyze_loop q ss acc = acc @ analyze_loop q ss []"
proof (induction ss arbitrary: acc)
  case Nil
  show ?case by simp
next
  case (Cons s ss)
  show ?case
    using Cons.IH [of "acc @ [x]" for x] Cons.IH [of "[x]" for x] Cons.IH [of acc]
    by (simp add: Let_def)
qed

text \<open>The loop keeps, in corpus order, the snippets that score above 0.3.\<close>

lemma analyze_loop_map_filter:
  "analyze_loop q ss [] =
     map (suggestion_for q)
       (filter (\<lambda>s. num_gt (calculateSimilarity q (code s)) (Num (3 / 10))) ss)"
proof (induction ss)
  case Nil
  show ?case by simp
next
  case (Cons s ss)
  show ?case
    using Cons.IH analyze_loop_append [of q ss "[x]" for x]
    by (simp add: Let_def suggestion_for_def)
qed

lemma analyze_loop_member:
  assumes "x \<in> set (analyze_loop q ss [])"
  shows "\<exists>s r. x = suggestion_for q s \<and> s \<in> set ss \<and> calculateSimilarity q (code s) = Num r
           \<and> 3 / 10 < r \<and> r \<le> 1"
proof -
  from assms obtain s where s: "x = suggestion_for q s" "s \<in> set ss"
      "num_gt (calculateSimilarity q (code s)) (Num (3 / 10))"
    by (auto simp: analyze_loop_map_filter)
  obtain r where r: "calculateSimilarity q (code s) = Num r" "r \<le> 1"
    using calculateSimilarity_Num by blast
  with s show ?thesis by auto
qed

lemma analyze_loop_finite:
  "\<forall>y \<in> set (analyze_loop q ss []). \<exists>r. confidence y = Num r"
  using analyze_loop_member by (fastforce simp: suggestion_for_def)

lemma by_confidence_desc_eq:
  "by_confidence_desc = (\<lambda>a b. num_sub (confidence b) (confidence a))"
  by (simp add: fun_eq_iff by_confidence_desc_def)

lemma analyzeSimilarity_member:
  assumes "x \<in> set (analyzeSimilarity q ss)"
  shows "x \<in> set (analyze_loop q ss [])"
  using assms set_take_subset [of 5 "array_sort by_confidence_desc (analyze_loop q ss [])"]
  by (auto simp: analyzeSimilarity_def set_array_sort)

text \<open>
  C2. For every query and corpus the ranker returns at most 5 suggestions; every returned
  suggestion belongs to a snippet of the corpus, carries that snippet's similarity to the
  query as its confidence, and this confidence is strictly greater than 0.3.
\<close>

theorem analyzeSimilarity_bounded:
  "length (analyzeSimilarity queryCode corpus) \<le> 5
   \<and> (\<forall>s \<in> set (analyzeSimilarity queryCode corpus).
         num_gt (confidence s) (Num (3 / 10))
         \<and> snippet s \<in> set corpus
         \<and> confidence s = calculateSimilarity queryCode (code (snippet s)))"
proof
  show "length (analyzeSimilarity queryCode corpus) \<le> 5"
    by (simp add: analyzeSimilarity_def)
  show "\<forall>s \<in> set (analyzeSimilarity queryCode corpus).
         num_gt (confidence s) (Num (3 / 10))
         \<and> snippet s \<in> set corpus
         \<and> confidence s = calculateSimilarity queryCode (code (snippet s))"
  proof
    fix s assume "s \<in> set (analyzeSimilarity queryCode corpus)"
    then have "s \<in> set (analyze_loop queryCode corpus [])"
      by (rule analyzeSimilarity_member)
    then show "num_gt (confidence s) (Num (3 / 10))
         \<and> snippet s \<in> set corpus
         \<and> confidence s = calculateSimilarity queryCode (code (snippet s))"
      using analyze_loop_member [of s queryCode corpus]
      by (auto simp: suggestion_for_def)
  qed
qed

theorem analyzeSimilarity_bounded_witness:
  "suggestion_for example_query (stored ''4'' ''Array(fetch, JSON)'')
     \<in> set (analyzeSimilarity example_query example_corpus)
   \<and> num_gt (confidence (suggestion_for example_query (stored ''4'' ''Array(fetch, JSON)'')))
        (Num (3 / 10))"
proof -
  have "suggestion_for example_query (stored ''4'' ''Array(fetch, JSON)'')
     \<in> set (analyzeSimilarity example_query example_corpus)"
    by code_simp
  with analyzeSimilarity_bounded [of example_query example_corpus] show ?thesis
    by blast
qed

text \<open>
  C3. The ranker's output is the first 5 entries of the retained suggestions sorted by
  descending confidence. The retained suggestions are those of the corpus snippets that
  score above 0.3, in corpus order; sorting permutes them, puts higher confidence first,
  and leaves the suggestions of any one confidence value in their corpus order (the sort
  is stable); the truncation comes after the sort, so the output is sorted as well.
\<close>

theorem analyzeSimilarity_sorted_stable:
  "analyzeSimilarity queryCode corpus
     = take 5 (array_sort by_confidence_desc (analyze_loop queryCode corpus []))
   \<and> analyze_loop queryCode corpus []
     = map (suggestion_for queryCode)
         (filter (\<lambda>s. num_gt (calculateSimilarity queryCode (code s)) (Num (3 / 10))) corpus)
   \<and> mset (array_sort by_confidence_desc (analyze_loop queryCode corpus []))
     = mset (analyze_loop queryCode corpus [])
   \<and> sorted_wrt (\<lambda>a b. num_ge (confidence a) (confidence b))
        (array_sort by_confidence_desc (analyze_loop queryCode corpus []))
   \<and> (\<forall>k. filter (\<lambda>s. confidence s = k)
             (array_sort by_confidence_desc (analyze_loop queryCode corpus []))
          = filter (\<lambda>s. confidence s = k) (analyze_loop queryCode corpus []))
   \<and> sorted_wrt (\<lambda>a b. num_ge (confidence a) (confidence b))
        (analyzeSimilarity queryCode corpus)"
proof -
  let ?retained = "analyze_loop queryCode corpus []"
  let ?full = "array_sort by_confidence_desc ?retained"
  note fin = analyze_loop_finite [of queryCode corpus]
  have sorted_full: "sorted_wrt (\<lambda>a b. num_ge (confidence a) (confidence b)) ?full"
    using array_sort_sorted [OF fin] by (simp add: by_confidence_desc_eq)
  have perm: "mset ?full = mset ?retained"
    using array_sort_mset [OF fin] by (simp add: by_confidence_desc_eq)
  have stable: "filter (\<lambda>s. confidence s = k) ?full = filter (\<lambda>s. confidence s = k) ?retained"
    for k
    using array_sort_stable [OF fin] by (simp add: by_confidence_desc_eq)
  have "sorted_wrt (\<lambda>a b. num_ge (confidence a) (confidence b)) (take 5 ?full)"
    using sorted_full by (rule sorted_wrt_take)
  then show ?thesis
    using sorted_full perm stable
    by (simp add: analyzeSimilarity_def analyze_loop_map_filter [symmetric])
qed

theorem analyzeSimilarity_sorted_stable_witness:
  "map (\<lambda>s. (id_field (snippet s), confidence s)) (analyzeSimilarity example_query example_corpus)
     = [(''4'', Num 1), (''5'', Num (2 / 3)), (''1'', Num (1 / 2)), (''3'', Num (1 / 2)),
        (''6'', Num (1 / 2))]
   \<and> sorted_wrt (\<lambda>a b. num_ge (confidence a) (confidence b))
        (analyzeSimilarity example_query example_corpus)"
proof -
  have "map (\<lambda>s. (id_field (snippet s), confidence s))
          (analyzeSimilarity example_query example_corpus)
     = [(''4'', Num 1), (''5'', Num (2 / 3)), (''1'', Num (1 / 2)), (''3'', Num (1 / 2)),
        (''6'', Num (1 / 2))]"
    by code_simp
  with analyzeSimilarity_sorted_stable [of example_query example_corpus] show ?thesis
    by blast
qed

text \<open>
  C6. No suggestion returned by the ranker carries the reason label of the else branch,
  "Some common elements": every retained confidence exceeds 0.3, so the label is one of
  the three band labels.
\<close>

theorem ranker_reason_never_else:
  "\<forall>s \<in> set (analyzeSimilarity queryCode corpus).
     reason s \<noteq> ''Some common elements''
     \<and> reason s \<in> {''Very similar implementation'', ''Similar logic and structure'',
                    ''Related code patterns''}"
proof
  fix s assume "s \<in> set (analyzeSimilarity queryCode corpus)"
  then have "s \<in> set (analyze_loop queryCode corpus [])"
    by (rule analyzeSimilarity_member)
  then obtain sn r where "s = suggestion_for queryCode sn"
      "calculateSimilarity queryCode (code sn) = Num r" "3 / 10 < r"
    using analyze_loop_member by blast
  then show "reason s \<noteq> ''Some common elements''
     \<and> reason s \<in> {''Very similar implementation'', ''Similar logic and structure'',
                    ''Related code patterns''}"
    by (simp add: suggestion_for_def getSimilarityReason_def)
qed

theorem ranker_reason_never_else_witness:
  "suggestion_for example_query (stored ''1'' ''fetch header json'')
     \<in> set (analyzeSimilarity example_query example_corpus)
   \<and> reason (suggestion_for example_query (stored ''1'' ''fetch header json''))
       = ''Related code patterns''
   \<and> reason (suggestion_for example_query (stored ''1'' ''fetch header json''))
       \<noteq> ''Some common elements''"
proof -
  have "suggestion_for example_query (stored ''1'' ''fetch header json'')
     \<in> set (analyzeSimilarity example_query example_corpus)"
    by code_simp
  moreover have "reason (suggestion_for example_query (stored ''1'' ''fetch header json''))
       = ''Related code patterns''"
    by code_simp
  ultimately show ?thesis
    using ranker_reason_never_else [of example_query example_corpus] by blast
qed

section \<open>The explanation generator\<close>

lemma filter_foldl_Set_add:
  "filter P (foldl Set_add s xs) = foldl Set_add (filter P s) (filter P xs)"
  by (induction xs arbitrary: s) (auto simp: Set_add_def)

lemma filter_new_Set: "filter P (new_Set xs) = new_Set (filter P xs)"
  using filter_foldl_Set_add [of P "[]" xs] by (simp add: new_Set_def)

text \<open>
  C8. When the two token sets have no token in common the explanation is the fixed string
  "Structural similarity detected". Otherwise it is "Common patterns: " followed by the
  first three (or fewer) common tokens, joined by ", ", where the common tokens are taken
  in the order of their first occurrence in the snippet, without repetition. Snippet tokens
  fetch, header, json against query tokens fetch, json, array give
  "Common patterns: fetch, json".
\<close>

theorem getCodeContext_explains:
  "(set (tokenizeCode snippetCode) \<inter> set (tokenizeCode currentCode) = {}
      \<longrightarrow> getCodeContext snippetCode currentCode = ''Structural similarity detected'')
   \<and> (set (tokenizeCode snippetCode) \<inter> set (tokenizeCode currentCode) \<noteq> {}
      \<longrightarrow> (\<exists>common.
            getCodeContext snippetCode currentCode
              = ''Common patterns: '' @ join '', '' (take 3 common)
            \<and> common = new_Set (filter (\<lambda>t. t \<in> set (tokenizeCode currentCode))
                                  (tokenizeCode snippetCode))
            \<and> common \<noteq> [] \<and> distinct common
            \<and> set common = set (tokenizeCode snippetCode) \<inter> set (tokenizeCode currentCode)
            \<and> length (take 3 common) \<le> 3))
   \<and> tokenizeCode ''fetch header json'' = [''fetch'', ''header'', ''json'']
   \<and> tokenizeCode ''fetch json array'' = [''fetch'', ''json'', ''array'']
   \<and> getCodeContext ''fetch header json'' ''fetch json array'' = ''Common patterns: fetch, json''"
proof -
  let ?S = "tokenizeCode snippetCode" and ?C = "tokenizeCode currentCode"
  let ?common = "new_Set (filter (\<lambda>t. t \<in> set ?C) ?S)"
  have common: "filter (\<lambda>token. token \<in> set (new_Set ?C)) (new_Set ?S) = ?common"
    by (simp add: filter_new_Set set_new_Set)
  have set_common: "set ?common = set ?S \<inter> set ?C"
    by (auto simp: set_new_Set)
  have ctx: "getCodeContext snippetCode currentCode
      = (if ?common \<noteq> [] then ''Common patterns: '' @ join '', '' (take 3 ?common)
         else ''Structural similarity detected'')"
    unfolding getCodeContext_def Let_def common by simp
  have empty: "?common = [] \<longleftrightarrow> set ?S \<inter> set ?C = {}"
    using set_common by (metis set_empty)
  have a: "set ?S \<inter> set ?C = {}
      \<longrightarrow> getCodeContext snippetCode currentCode = ''Structural similarity detected''"
    using ctx empty by simp
  have b: "set ?S \<inter> set ?C \<noteq> {}
      \<longrightarrow> (\<exists>common.
            getCodeContext snippetCode currentCode
              = ''Common patterns: '' @ join '', '' (take 3 common)
            \<and> common = ?common
            \<and> common \<noteq> [] \<and> distinct common
            \<and> set common = set ?S \<inter> set ?C
            \<and> length (take 3 common) \<le> 3)"
    using ctx empty set_common by (simp add: distinct_new_Set)
  have c: "tokenizeCode ''fetch header json'' = [''fetch'', ''header'', ''json'']"
    by code_simp
  have d: "tokenizeCode ''fetch json array'' = [''fetch'', ''json'', ''array'']"
    by code_simp
  have e: "getCodeContext ''fetch header json'' ''fetch json array''
      = ''Common patterns: fetch, json''"
    by code_simp
  from a b c d e show ?thesis by blast
qed

theorem getCodeContext_explains_witness:
  "set (tokenizeCode ''let total = 0;'') \<inter> set (tokenizeCode ''fetch json array'') = {}
   \<and> getCodeContext ''let total = 0;'' ''fetch json array'' = ''Structural similarity detected''
   \<and> set (tokenizeCode ''json; fetch; json; header; array; fetch'')
        \<inter> set (tokenizeCode ''fetch header json array'') \<noteq> {}
   \<and> getCodeContext ''json; fetch; json; header; array; fetch'' ''fetch header json array''
       = ''Common patterns: json, fetch, header''"
proof -
  have a: "set (tokenizeCode ''let total = 0;'') \<inter> set (tokenizeCode ''fetch json array'') = {}"
    by code_simp
  have b: "set (tokenizeCode ''json; fetch; json; header; array; fetch'')
        \<inter> set (tokenizeCode ''fetch header json array'') \<noteq> {}"
    by code_simp
  have c: "new_Set (filter (\<lambda>t. t \<in> set (tokenizeCode ''fetch header json array''))
                                  (tokenizeCode ''json; fetch; json; header; array; fetch''))
      = [''json'', ''fetch'', ''header'', ''array'']"
    by code_simp
  from a getCodeContext_explains [of "''let total = 0;''" "''fetch json array''"]
  have "getCodeContext ''let total = 0;'' ''fetch json array'' = ''Structural similarity detected''"
    by blast
  moreover
  from b getCodeContext_explains [of "''json; fetch; json; header; array; fetch''"
      "''fetch header json array''"]
  have "getCodeContext ''json; fetch; json; header; array; fetch'' ''fetch header json array''
       = ''Common patterns: '' @ join '', '' (take 3 [''json'', ''fetch'', ''header'', ''array''])"
    unfolding c by blast
  ultimately show ?thesis
    using a b by simp
qed


section \<open>The fingerprint\<close>

lemma cache_loop_hash_hit:
  assumes "s \<in> set cache" and "generateCodeHash (code s) = h"
  shows "cache_loop c h cache \<noteq> NotFound"
  using assms by (induction cache) (auto simp: Let_def)

lemma fingerprint_text_1:
  "normalize_numbers False
     (normalize_strings (CHR 0x27)
        (normalize_strings (CHR 0x22)
           (replace_whitespace []
              (strip_block_comments (strip_line_comments (toLowerCase ''const x = 1;''))))))
   = ''constx=0;''"
  by code_simp

lemma fingerprint_text_2:
  "normalize_numbers False
     (normalize_strings (CHR 0x27)
        (normalize_strings (CHR 0x22)
           (replace_whitespace []
              (strip_block_comments (strip_line_comments (toLowerCase ''const   x=2;''))))))
   = ''constx=0;''"
  by code_simp

lemma simpleHash_example: "simpleHash ''constx=0;'' = ''6z185p''"
  by (simp add: simpleHash_def hash_round_def toString36.simps digit36_def)

text \<open>
  C4. The candidate "const x = 1;" and the stored code "const   x=2;" have the same
  fingerprint: both normalize to "constx=0;", whose hash is "6z185p". So when the loop of
  \<open>isCodeAlreadyInVault\<close> comes to a snippet with that code it stops at the fingerprint
  comparison; and whenever such a snippet is in the cache, the candidate is declared a
  duplicate by the loop over the cache, whatever the server answers.
\<close>

theorem fingerprint_example:
  "generateCodeHash ''const x = 1;'' = generateCodeHash ''const   x=2;''
   \<and> generateCodeHash ''const x = 1;'' = ''6z185p''
   \<and> (code s = ''const   x=2;''
        \<longrightarrow> cache_loop ''const x = 1;'' (generateCodeHash ''const x = 1;'') (s # rest)
              = FoundExact)
   \<and> ((\<exists>s \<in> set cache. code s = ''const   x=2;'')
        \<longrightarrow> cache_loop ''const x = 1;'' (generateCodeHash ''const x = 1;'') cache \<noteq> NotFound
            \<and> isCodeAlreadyInVault ''const x = 1;'' cache analyze_reply)"
proof -
  have h1: "generateCodeHash ''const x = 1;'' = ''6z185p''"
    unfolding generateCodeHash_def Let_def fingerprint_text_1 by (rule simpleHash_example)
  have h2: "generateCodeHash ''const   x=2;'' = ''6z185p''"
    unfolding generateCodeHash_def Let_def fingerprint_text_2 by (rule simpleHash_example)
  have first: "cache_loop ''const x = 1;'' (generateCodeHash ''const x = 1;'') (s # rest)
      = FoundExact"
    if "code s = ''const   x=2;''"
    using that by (simp add: h1 h2)
  have found: "cache_loop ''const x = 1;'' (generateCodeHash ''const x = 1;'') cache \<noteq> NotFound"
    if "\<exists>s \<in> set cache. code s = ''const   x=2;''"
  proof -
    from that obtain s where "s \<in> set cache" "code s = ''const   x=2;''" by blast
    then show ?thesis
      by (intro cache_loop_hash_hit [of s]) (simp_all add: h1 h2)
  qed
  have "isCodeAlreadyInVault ''const x = 1;'' cache analyze_reply"
    if "\<exists>s \<in> set cache. code s = ''const   x=2;''"
    using found [OF that] by (simp add: isCodeAlreadyInVault_def split: cache_result.splits)
  with h1 h2 first found show ?thesis by simp
qed

theorem fingerprint_example_witness:
  "code (stored ''8'' ''const   x=2;'') = ''const   x=2;''
   \<and> cache_loop ''const x = 1;'' (generateCodeHash ''const x = 1;'')
        [stored ''8'' ''const   x=2;'', stored ''7'' ''let y = 3;''] = FoundExact
   \<and> (\<exists>s \<in> set [stored ''7'' ''let y = 3;'', stored ''8'' ''const   x=2;''].
        code s = ''const   x=2;'')
   \<and> isCodeAlreadyInVault ''const x = 1;''
        [stored ''7'' ''let y = 3;'', stored ''8'' ''const   x=2;''] None"
proof -
  have a: "code (stored ''8'' ''const   x=2;'') = ''const   x=2;''"
    by (simp add: stored_def)
  have b: "\<exists>s \<in> set [stored ''7'' ''let y = 3;'', stored ''8'' ''const   x=2;''].
      code s = ''const   x=2;''"
    by (simp add: stored_def)
  from a fingerprint_example [of "stored ''8'' ''const   x=2;''" "[stored ''7'' ''let y = 3;'']"]
  have "cache_loop ''const x = 1;'' (generateCodeHash ''const x = 1;'')
        [stored ''8'' ''const   x=2;'', stored ''7'' ''let y = 3;''] = FoundExact"
    by blast
  moreover
  from b fingerprint_example [of _ _ "[stored ''7'' ''let y = 3;'', stored ''8'' ''const   x=2;'']"
      None]
  have "isCodeAlreadyInVault ''const x = 1;''
        [stored ''7'' ''let y = 3;'', stored ''8'' ''const   x=2;''] None"
    by blast
  ultimately show ?thesis
    using a b by blast
qed

section \<open>Line similarity\<close>

lemma replace_whitespace_chars:
  "x \<in> set (replace_whitespace r s) \<Longrightarrow> x \<in> set r \<or> \<not> is_space x"
  by (induction r s rule: replace_whitespace.induct) (auto split: if_splits)

lemma after_literal_end_subset:
  "after_literal_end q cs = Some rest \<Longrightarrow> set rest \<subseteq> set cs"
  by (induction q cs arbitrary: rest rule: after_literal_end.induct)
     (fastforce split: if_splits list.splits)+

lemma normalize_strings_subset: "set (normalize_strings q s) \<subseteq> set s"
proof (induction q s rule: normalize_strings.induct)
  case (1 q)
  show ?case by simp
next
  case (2 q c cs)
  show ?case
  proof (cases "c = q")
    case False
    with 2 show ?thesis by auto
  next
    case True
    show ?thesis
    proof (cases "after_literal_end q cs")
      case None
      with True 2 show ?thesis by auto
    next
      case (Some rest)
      with True 2 after_literal_end_subset [OF Some] show ?thesis by auto
    qed
  qed
qed

lemma normalize_numbers_subset: "set (normalize_numbers p s) \<subseteq> insert (CHR ''0'') (set s)"
proof (induction p s rule: normalize_numbers.induct)
  case (1 p)
  show ?case by simp
next
  case (2 p c cs)
  have drop: "set (dropWhile is_digit cs) \<subseteq> set cs"
    using set_dropWhileD by fastforce
  show ?case
  proof (cases "is_digit c \<and> \<not> p")
    case False
    with 2 show ?thesis by auto
  next
    case True
    show ?thesis
    proof (cases "dropWhile is_digit cs = [] \<or> \<not> is_word (hd (dropWhile is_digit cs))")
      case replaced: True
      then have "set (normalize_numbers True (dropWhile is_digit cs))
          \<subseteq> insert (CHR ''0'') (set (dropWhile is_digit cs))"
        using "2.IH"(1) True by blast
      with drop have "set (normalize_numbers True (dropWhile is_digit cs))
          \<subseteq> insert (CHR ''0'') (set cs)"
        by blast
      with True replaced show ?thesis by (auto simp: Let_def)
    next
      case kept: False
      then have "set (normalize_numbers True cs) \<subseteq> insert (CHR ''0'') (set cs)"
        using "2.IH"(2) True by blast
      with True kept show ?thesis by (auto simp: Let_def)
    qed
  qed
qed

lemma trim_subset: "set (trim s) \<subseteq> set s"
proof
  fix x assume "x \<in> set (trim s)"
  then have "x \<in> set (dropWhile is_space (rev (dropWhile is_space s)))"
    by (simp add: trim_def)
  then have "x \<in> set (rev (dropWhile is_space s))"
    by (rule set_dropWhileD)
  then have "x \<in> set (dropWhile is_space s)"
    by simp
  then show "x \<in> set s"
    by (rule set_dropWhileD)
qed

lemma normalizeCode_no_newline: "CHR 0x0A \<notin> set (normalizeCode c)"
proof
  assume "CHR 0x0A \<in> set (normalizeCode c)"
  then have "CHR 0x0A \<in> set (normalize_numbers False
          (normalize_strings (CHR 0x27)
             (normalize_strings (CHR 0x22)
                (replace_whitespace '' ''
                   (strip_block_comments (strip_line_comments (toLowerCase c)))))))"
    using trim_subset unfolding normalizeCode_def by blast
  then have "CHR 0x0A \<in> set (normalize_strings (CHR 0x27)
             (normalize_strings (CHR 0x22)
                (replace_whitespace '' ''
                   (strip_block_comments (strip_line_comments (toLowerCase c))))))"
    using normalize_numbers_subset by fastforce
  then have "CHR 0x0A \<in> set (replace_whitespace '' ''
                   (strip_block_comments (strip_line_comments (toLowerCase c))))"
    using normalize_strings_subset by blast
  then show False
    using replace_whitespace_chars [of "CHR 0x0A" "'' ''"] by (auto simp: is_space_def)
qed

lemma split_on_no_separator:
  "\<forall>x \<in> set s. \<not> sep x \<Longrightarrow> split_on sep s = [s]"
  by (induction s) auto

lemma lines_of_normalizeCode:
  "split_on (\<lambda>ch. ch = CHR 0x0A) (normalizeCode c) = [normalizeCode c]"
  using normalizeCode_no_newline [of c] by (intro split_on_no_separator) auto

lemma calculateCodeSimilarity_all_or_nothing:
  "calculateCodeSimilarity code1 code2 =
     (if normalizeCode code1 = normalizeCode code2 \<and> 5 < length (normalizeCode code1)
      then Num 1 else Num 0)"
  by (simp add: calculateCodeSimilarity_def Let_def lines_of_normalizeCode new_Set_def
      Set_add_def size_div_def)


lemma code_stored: "code (stored i c) = c"
  by (simp add: stored_def)

lemma ten_lines_split:
  "split_on (\<lambda>ch. ch = CHR 0x0A) ten_lines
     = split_on (\<lambda>ch. ch = CHR 0x0A) nine_lines @ [''kilo(lima, mike, november, oscar, papa);'']"
  by code_simp

lemma nine_lines_split:
  "split_on (\<lambda>ch. ch = CHR 0x0A) nine_lines
     = [''alpha();'', ''bravo();'', ''charlie();'', ''delta();'', ''foxtrot();'', ''golf();'',
        ''hotel();'', ''india();'', ''juliet();'']"
  by code_simp

lemma normalizeCode_ten_lines:
  "normalizeCode ten_lines
     = ''alpha(); bravo(); charlie(); delta(); foxtrot(); golf(); hotel(); india(); juliet(); kilo(lima, mike, november, oscar, papa);''"
  by code_simp

lemma normalizeCode_nine_lines:
  "normalizeCode nine_lines
     = ''alpha(); bravo(); charlie(); delta(); foxtrot(); golf(); hotel(); india(); juliet();''"
  by code_simp

lemma fingerprint_text_ten_lines:
  "normalize_numbers False
     (normalize_strings (CHR 0x27)
        (normalize_strings (CHR 0x22)
           (replace_whitespace []
              (strip_block_comments (strip_line_comments (toLowerCase ten_lines))))))
   = ''alpha();bravo();charlie();delta();foxtrot();golf();hotel();india();juliet();kilo(lima,mike,november,oscar,papa);''"
  by code_simp

lemma fingerprint_text_nine_lines:
  "normalize_numbers False
     (normalize_strings (CHR 0x27)
        (normalize_strings (CHR 0x22)
           (replace_whitespace []
              (strip_block_comments (strip_line_comments (toLowerCase nine_lines))))))
   = ''alpha();bravo();charlie();delta();foxtrot();golf();hotel();india();juliet();''"
  by code_simp

lemma generateCodeHash_ten_lines: "generateCodeHash ten_lines = ''va4qt4''"
  unfolding generateCodeHash_def Let_def fingerprint_text_ten_lines
  by (simp add: simpleHash_def hash_round_def toString36.simps digit36_def)

lemma generateCodeHash_nine_lines: "generateCodeHash nine_lines = ''tpfuio''"
  unfolding generateCodeHash_def Let_def fingerprint_text_nine_lines
  by (simp add: simpleHash_def hash_round_def toString36.simps digit36_def)

text \<open>
  C1, at the input of its example. The candidate \<open>ten_lines\<close> consists of the nine
  lines of the stored snippet \<open>nine_lines\<close> and one more line; all ten lines are
  distinct, normalized and longer than 5 characters, so the two line sets share 9 of 10
  lines. \<open>normalizeCode\<close> turns every line break into a space, so the normalized
  candidate is a single line, \<open>calculateCodeSimilarity\<close> returns 0 instead of 0.9, and
  \<open>isCodeAlreadyInVault\<close> does not declare the candidate a duplicate, neither when the
  server cannot be reached nor when it answers with its own ranking of the same snippet.
\<close>

theorem nine_of_ten_lines_not_duplicate:
  "split_on (\<lambda>ch. ch = CHR 0x0A) ten_lines
     = split_on (\<lambda>ch. ch = CHR 0x0A) nine_lines @ [''kilo(lima, mike, november, oscar, papa);'']
   \<and> length (split_on (\<lambda>ch. ch = CHR 0x0A) nine_lines) = 9
   \<and> distinct (split_on (\<lambda>ch. ch = CHR 0x0A) ten_lines)
   \<and> list_all (\<lambda>line. 5 < length line) (split_on (\<lambda>ch. ch = CHR 0x0A) ten_lines)
   \<and> split_on (\<lambda>ch. ch = CHR 0x0A) (normalizeCode ten_lines) = [normalizeCode ten_lines]
   \<and> calculateCodeSimilarity ten_lines nine_lines = Num 0
   \<and> cache_loop ten_lines (generateCodeHash ten_lines) [stored ''1'' nine_lines] = NotFound
   \<and> isCodeAlreadyInVault ten_lines [stored ''1'' nine_lines] None = False
   \<and> isCodeAlreadyInVault ten_lines [stored ''1'' nine_lines]
         (Some (analyzeSimilarity ten_lines [stored ''1'' nine_lines])) = False"
proof -
  have sim: "calculateCodeSimilarity ten_lines nine_lines = Num 0"
    by (simp add: calculateCodeSimilarity_all_or_nothing normalizeCode_ten_lines
        normalizeCode_nine_lines)
  have cache: "cache_loop ten_lines (generateCodeHash ten_lines) [stored ''1'' nine_lines]
      = NotFound"
    by (simp add: Let_def code_stored generateCodeHash_ten_lines generateCodeHash_nine_lines sim)
  have vault: "isCodeAlreadyInVault ten_lines [stored ''1'' nine_lines] None = False"
    unfolding isCodeAlreadyInVault_def Let_def cache by simp
  have server: "map confidence (analyzeSimilarity ten_lines [stored ''1'' nine_lines])
      = [Num (3 / 5)]"
    by code_simp
  then obtain s where s: "analyzeSimilarity ten_lines [stored ''1'' nine_lines] = [s]"
      "confidence s = Num (3 / 5)"
    by auto
  have vault': "isCodeAlreadyInVault ten_lines [stored ''1'' nine_lines]
         (Some (analyzeSimilarity ten_lines [stored ''1'' nine_lines])) = False"
    unfolding isCodeAlreadyInVault_def Let_def cache by (simp add: s)
  show ?thesis
    using sim cache vault vault' lines_of_normalizeCode [of ten_lines]
    by (simp add: ten_lines_split nine_lines_split)
qed


section \<open>The recently-processed set\<close>

lemma set_foldl_run_callback:
  "set (foldl (run_callback now) s ts) = set s - snd ` {t \<in> set ts. fst t \<le> now}"
  by (induction ts arbitrary: s) (auto simp: run_callback_def Set_delete_def)

lemma timers_match_advance:
  assumes "timers_match st"
  shows "timers_match (advance_clock now st)"
proof -
  have d: "distinct (map snd (timers st))" and e: "set (recentlyProcessed st) = snd ` set (timers st)"
    using assms by (auto simp: timers_match_def)
  have "distinct (map snd (filter (\<lambda>timer. now < fst timer) (timers st)))"
    using d by (rule distinct_map_filter)
  moreover have "snd ` set (timers st) - snd ` {t \<in> set (timers st). fst t \<le> now}
      = snd ` {t \<in> set (timers st). now < fst t}" (is "?L = ?R")
  proof
    show "?L \<subseteq> ?R" by force
    have inj: "inj_on snd (set (timers st))"
      using d by (simp add: distinct_map)
    show "?R \<subseteq> ?L"
    proof
      fix x assume "x \<in> ?R"
      then obtain t where t: "t \<in> set (timers st)" "now < fst t" "x = snd t" by auto
      have "x \<notin> snd ` {t \<in> set (timers st). fst t \<le> now}"
      proof
        assume "x \<in> snd ` {t \<in> set (timers st). fst t \<le> now}"
        then obtain u where u: "u \<in> set (timers st)" "fst u \<le> now" "x = snd u" by auto
        with t inj have "u = t" by (auto dest: inj_onD)
        with t u show False by simp
      qed
      with t show "x \<in> ?L" by auto
    qed
  qed
  ultimately show ?thesis
    by (simp add: timers_match_def advance_clock_def set_foldl_run_callback e)
qed

lemma timers_match_save:
  assumes "timers_match st"
  shows "timers_match (fst (saveSnippetToVault now c reply st))"
  using assms
  by (auto simp: timers_match_def saveSnippetToVault_def Let_def isDuplicateCode_def Set_add_def
      split: post_reply.splits)

lemma timers_match_capture:
  assumes "timers_match st"
  shows "timers_match (fst (processCodeCapture now c a reply st))"
  using assms timers_match_save [OF assms]
  by (simp add: processCodeCapture_def Let_def)

lemma timers_match_step:
  assumes "timers_match st"
  shows "timers_match (step st e)"
proof (cases e)
  case (Reload t ss)
  then show ?thesis
    using timers_match_advance [OF assms, of t] by (simp add: timers_match_def)
qed (simp_all add: assms timers_match_advance timers_match_save timers_match_capture)

lemma timers_match_run:
  assumes "timers_match st"
  shows "timers_match (run st evs)"
  using assms unfolding run_def
  by (induction evs arbitrary: st) (simp_all add: timers_match_step)

lemma timers_match_activated: "timers_match activated"
  by (simp add: timers_match_def activated_def)

text \<open>A pending timer stays pending while the clock is before its due time.\<close>

lemma pending_advance:
  assumes "(due, h) \<in> set (timers st)" and "now < due"
  shows "(due, h) \<in> set (timers (advance_clock now st))"
  using assms by (simp add: advance_clock_def)

lemma pending_save:
  assumes "(due, h) \<in> set (timers st)"
  shows "(due, h) \<in> set (timers (fst (saveSnippetToVault now c reply st)))"
  using assms by (auto simp: saveSnippetToVault_def Let_def split: post_reply.splits)

lemma pending_capture:
  assumes "(due, h) \<in> set (timers st)"
  shows "(due, h) \<in> set (timers (fst (processCodeCapture now c a reply st)))"
  using assms pending_save [OF assms] by (simp add: processCodeCapture_def Let_def)

lemma pending_step:
  assumes "(due, h) \<in> set (timers st)" and "event_time e < due"
  shows "(due, h) \<in> set (timers (step st e))"
  using assms
  by (cases e) (simp_all add: pending_advance pending_save pending_capture)

lemma pending_run:
  assumes "(due, h) \<in> set (timers st)" and "\<forall>e \<in> set evs. event_time e < due"
  shows "(due, h) \<in> set (timers (run st evs))"
  using assms unfolding run_def
  by (induction evs arbitrary: st) (simp_all add: pending_step)

lemma pending_in_set:
  assumes "timers_match st" and "(due, h) \<in> set (timers st)"
  shows "isDuplicateCode h st"
  using assms by (force simp: timers_match_def isDuplicateCode_def)

lemma due_fired:
  assumes "(due, h) \<in> set (timers st)" and "due \<le> now"
  shows "\<not> isDuplicateCode h (advance_clock now st)"
  using assms
  by (force simp: isDuplicateCode_def advance_clock_def set_foldl_run_callback)

lemma save_sets_timer:
  assumes "saveSnippetToVault t0 c reply st = (st1, Posted reply')"
  shows "(t0 + 60000, generateCodeHash c) \<in> set (timers st1)"
  using assms
  by (auto simp: saveSnippetToVault_def Let_def split: if_splits post_reply.splits)

lemma save_outcome:
  "snd (saveSnippetToVault now c reply st)
     = (if isDuplicateCode (generateCodeHash c) st then SkipRecentHash else Posted reply)"
  by (simp add: saveSnippetToVault_def Let_def split: post_reply.splits)

lemma capture_outcome:
  "snd (processCodeCapture now c a reply st)
     = (if isCodeAlreadyInVault c (existingSnippetsCache st) a then SkipInVault
        else if isDuplicateCode c st then SkipRecentRaw
        else if isDuplicateCode (generateCodeHash c) st then SkipRecentHash
        else Posted reply)"
  by (simp add: processCodeCapture_def Let_def save_outcome)

lemma capture_posted:
  assumes "processCodeCapture now c a reply st = (st1, Posted reply')"
  shows "saveSnippetToVault now c reply st = (st1, Posted reply')"
  using assms by (simp add: processCodeCapture_def Let_def split: if_splits)

text \<open>
  C5. A candidate passes the guard at time \<open>t0\<close> and is captured: its fingerprint
  enters the recently-processed set and a timer is set for \<open>t0 + 60000\<close> ms. Whatever
  happens before the timer is due (further captures, cache reloads, other timers), and
  whether or not the first capture reached the cache, a resubmission of the same candidate
  at a time before \<open>t0 + 60000\<close> finds the fingerprint (\<open>isDuplicateCode\<close> is true)
  and is not sent to the server. Once the clock has reached \<open>t0 + 60000\<close> the timer
  has run, the fingerprint is gone, and \<open>saveSnippetToVault\<close> sends the candidate again.
\<close>

theorem recent_resubmission_window:
  assumes "timers_match st"
    and "processCodeCapture t0 c a0 reply st = (st1, Posted reply)"
    and "\<forall>e \<in> set evs. event_time e < t0 + 60000"
  shows "(now < t0 + 60000 \<longrightarrow>
            isDuplicateCode (generateCodeHash c) (advance_clock now (run st1 evs))
            \<and> snd (saveSnippetToVault now c reply' (advance_clock now (run st1 evs)))
                = SkipRecentHash
            \<and> snd (processCodeCapture now c a reply' (advance_clock now (run st1 evs)))
                \<in> {SkipInVault, SkipRecentRaw, SkipRecentHash})
         \<and> (t0 + 60000 \<le> now \<longrightarrow>
            \<not> isDuplicateCode (generateCodeHash c) (advance_clock now (run st1 evs))
            \<and> snd (saveSnippetToVault now c reply' (advance_clock now (run st1 evs)))
                = Posted reply')"
proof -
  let ?h = "generateCodeHash c" and ?st = "run st1 evs"
  have saved: "saveSnippetToVault t0 c reply st = (st1, Posted reply)"
    using assms(2) by (rule capture_posted)
  have "timers_match (fst (saveSnippetToVault t0 c reply st))"
    using assms(1) by (rule timers_match_save)
  then have "timers_match st1"
    by (simp add: saved)
  then have m: "timers_match ?st"
    by (rule timers_match_run)
  have "(t0 + 60000, ?h) \<in> set (timers st1)"
    using saved by (rule save_sets_timer)
  then have pending: "(t0 + 60000, ?h) \<in> set (timers ?st)"
    using assms(3) by (rule pending_run)
  have inside: "isDuplicateCode ?h (advance_clock now ?st)" if "now < t0 + 60000"
    using timers_match_advance [OF m] pending_advance [OF pending that]
    by (rule pending_in_set)
  have outside: "\<not> isDuplicateCode ?h (advance_clock now ?st)" if "t0 + 60000 \<le> now"
    using pending that by (rule due_fired)
  show ?thesis
    using inside outside by (auto simp: save_outcome capture_outcome)
qed

lemma first_capture:
  "processCodeCapture 1000 ''const x = 1;'' None RequestFailed activated
     = (after_first_capture, Posted RequestFailed)"
proof -
  have h: "generateCodeHash ''const x = 1;'' = ''6z185p''"
    unfolding generateCodeHash_def Let_def fingerprint_text_1 by (rule simpleHash_example)
  show ?thesis
    by (simp add: processCodeCapture_def isCodeAlreadyInVault_def saveSnippetToVault_def
        isDuplicateCode_def activated_def after_first_capture_def Set_add_def h Let_def)
qed

theorem recent_resubmission_window_witness:
  "timers_match activated
   \<and> processCodeCapture 1000 ''const x = 1;'' None RequestFailed activated
       = (after_first_capture, Posted RequestFailed)
   \<and> list_all (\<lambda>e. event_time e < 1000 + 60000) later_events
   \<and> (30000::nat) < 1000 + 60000
   \<and> isDuplicateCode (generateCodeHash ''const x = 1;'')
        (advance_clock 30000 (run after_first_capture later_events))
   \<and> snd (processCodeCapture 30000 ''const x = 1;'' None RequestFailed
             (advance_clock 30000 (run after_first_capture later_events)))
       \<in> {SkipInVault, SkipRecentRaw, SkipRecentHash}
   \<and> (1000::nat) + 60000 \<le> 61000
   \<and> snd (saveSnippetToVault 61000 ''const x = 1;'' RequestFailed
             (advance_clock 61000 (run after_first_capture later_events)))
       = Posted RequestFailed"
proof -
  have evs: "\<forall>e \<in> set later_events. event_time e < 1000 + 60000"
    by (simp add: later_events_def)
  note window = recent_resubmission_window [OF timers_match_activated first_capture evs]
  have "isDuplicateCode (generateCodeHash ''const x = 1;'')
        (advance_clock 30000 (run after_first_capture later_events))
   \<and> snd (processCodeCapture 30000 ''const x = 1;'' None RequestFailed
             (advance_clock 30000 (run after_first_capture later_events)))
       \<in> {SkipInVault, SkipRecentRaw, SkipRecentHash}"
    using window [of 30000 RequestFailed None] by simp
  moreover have "snd (saveSnippetToVault 61000 ''const x = 1;'' RequestFailed
             (advance_clock 61000 (run after_first_capture later_events)))
       = Posted RequestFailed"
    using window [of 61000 RequestFailed None] by simp
  moreover have "list_all (\<lambda>e. event_time e < 1000 + 60000) later_events"
    by (simp add: later_events_def)
  ultimately show ?thesis
    using timers_match_activated first_capture by simp
qed

section \<open>The check of the raw code\<close>

lemma hashes_only_advance:
  "set (recentlyProcessed (advance_clock now st)) \<subseteq> set (recentlyProcessed st)"
  by (auto simp: advance_clock_def set_foldl_run_callback)

lemma hashes_only_save:
  "set (recentlyProcessed (fst (saveSnippetToVault now c reply st)))
     \<subseteq> insert (generateCodeHash c) (set (recentlyProcessed st))"
  by (auto simp: saveSnippetToVault_def Let_def Set_add_def split: post_reply.splits if_splits)

lemma hashes_only_capture:
  "set (recentlyProcessed (fst (processCodeCapture now c a reply st)))
     \<subseteq> insert (generateCodeHash c) (set (recentlyProcessed st))"
  using hashes_only_save [of now c reply st]
  by (auto simp: processCodeCapture_def Let_def)

lemma hashes_only_step:
  assumes "set (recentlyProcessed st) \<subseteq> range generateCodeHash"
  shows "set (recentlyProcessed (step st e)) \<subseteq> range generateCodeHash"
proof (cases e)
  case (Tick t)
  then show ?thesis using assms hashes_only_advance [of t st] by auto
next
  case (Capture t c a r)
  then show ?thesis
    using assms hashes_only_advance [of t st] hashes_only_capture [of t c a r "advance_clock t st"]
    by auto
next
  case (Save t c r)
  then show ?thesis
    using assms hashes_only_advance [of t st] hashes_only_save [of t c r "advance_clock t st"]
    by auto
next
  case (Reload t ss)
  then show ?thesis using assms hashes_only_advance [of t st] by auto
qed

lemma hashes_only_run:
  assumes "set (recentlyProcessed st) \<subseteq> range generateCodeHash"
  shows "set (recentlyProcessed (run st evs)) \<subseteq> range generateCodeHash"
  using assms unfolding run_def
  by (induction evs arbitrary: st) (simp_all add: hashes_only_step)

lemma toString36_length:
  "n < 36 ^ k \<Longrightarrow> 0 < k \<Longrightarrow> length (toString36 n) \<le> k"
proof (induction k arbitrary: n)
  case 0
  then show ?case by simp
next
  case (Suc k)
  show ?case
  proof (cases "n < 36")
    case True
    then show ?thesis by (simp add: toString36.simps)
  next
    case False
    then have k: "0 < k" using Suc.prems by (cases k) auto
    have "n div 36 < 36 ^ k"
      using Suc.prems by (simp add: less_mult_imp_div_less mult.commute)
    then have "length (toString36 (n div 36)) \<le> k"
      using k by (rule Suc.IH)
    with False show ?thesis
      by (subst toString36.simps) simp
  qed
qed

lemma simpleHash_length: "length (simpleHash s) \<le> 6"
proof -
  let ?w = "foldl hash_round 0 s"
  have "- (2 ^ 31) \<le> sint ?w" "sint ?w < 2 ^ 31"
    using sint_ge [of ?w] sint_lt [of ?w] by simp_all
  then have "nat \<bar>sint ?w\<bar> < 36 ^ 6" by simp
  then show ?thesis
    unfolding simpleHash_def by (rule toString36_length) simp
qed

lemma generateCodeHash_length: "length (generateCodeHash c) \<le> 6"
  by (simp add: generateCodeHash_def Let_def simpleHash_length)

text \<open>
  C9. The check that \<open>processCodeCapture\<close> makes before saving looks the raw code up
  in a set that only ever holds fingerprints: in every state reached from activation each
  element of the recently-processed set is the \<open>generateCodeHash\<close> of some code, a
  string of at most 6 characters, so no code longer than that is ever found there. For any
  candidate that is not itself an element of the set the check is false,
  \<open>processCodeCapture\<close> is the vault check followed by \<open>saveSnippetToVault\<close>, and a
  recent resubmission is stopped only by the fingerprint check inside
  \<open>saveSnippetToVault\<close>.
\<close>

theorem raw_code_check_inert:
  "(\<forall>x \<in> set (recentlyProcessed (run activated evs)). \<exists>c'. x = generateCodeHash c')
   \<and> (6 < length c \<longrightarrow> \<not> isDuplicateCode c (run activated evs))
   \<and> (c \<notin> set (recentlyProcessed st) \<longrightarrow>
        \<not> isDuplicateCode c st
        \<and> processCodeCapture now c a reply st
            = (if isCodeAlreadyInVault c (existingSnippetsCache st) a then (st, SkipInVault)
               else saveSnippetToVault now c reply st)
        \<and> snd (processCodeCapture now c a reply st)
            = (if isCodeAlreadyInVault c (existingSnippetsCache st) a then SkipInVault
               else if isDuplicateCode (generateCodeHash c) st then SkipRecentHash
               else Posted reply))"
proof -
  have sub: "set (recentlyProcessed (run activated evs)) \<subseteq> range generateCodeHash"
    by (rule hashes_only_run) (simp add: activated_def)
  then have a: "\<forall>x \<in> set (recentlyProcessed (run activated evs)). \<exists>c'. x = generateCodeHash c'"
    by auto
  have b: "\<not> isDuplicateCode c (run activated evs)" if "6 < length c"
  proof
    assume "isDuplicateCode c (run activated evs)"
    then obtain c' where "c = generateCodeHash c'"
      using sub by (auto simp: isDuplicateCode_def)
    with generateCodeHash_length [of c'] that show False by simp
  qed
  show ?thesis
    using a b by (auto simp: isDuplicateCode_def processCodeCapture_def Let_def save_outcome)
qed

theorem raw_code_check_inert_witness:
  "''const x = 1;'' \<notin> set (recentlyProcessed after_first_capture)
   \<and> generateCodeHash ''const x = 1;'' \<in> set (recentlyProcessed after_first_capture)
   \<and> \<not> isDuplicateCode ''const x = 1;'' after_first_capture
   \<and> snd (processCodeCapture 2000 ''const x = 1;'' None RequestFailed after_first_capture)
       = SkipRecentHash
   \<and> after_first_capture = run activated [Capture 1000 ''const x = 1;'' None RequestFailed]
   \<and> list_all (\<lambda>x. \<exists>c'. x = generateCodeHash c') (recentlyProcessed after_first_capture)
   \<and> 6 < length ''const x = 1;''"
proof -
  have h: "generateCodeHash ''const x = 1;'' = ''6z185p''"
    unfolding generateCodeHash_def Let_def fingerprint_text_1 by (rule simpleHash_example)
  have notin: "''const x = 1;'' \<notin> set (recentlyProcessed after_first_capture)"
    by (simp add: after_first_capture_def)
  have reach: "after_first_capture = run activated [Capture 1000 ''const x = 1;'' None RequestFailed]"
  proof -
    have "advance_clock 1000 activated = activated"
      by (simp add: advance_clock_def activated_def)
    then show ?thesis
      by (simp add: run_def first_capture)
  qed
  have vault: "\<not> isCodeAlreadyInVault ''const x = 1;'' (existingSnippetsCache after_first_capture) None"
    by (simp add: isCodeAlreadyInVault_def after_first_capture_def)
  have dup: "isDuplicateCode (generateCodeHash ''const x = 1;'') after_first_capture"
    by (simp add: h isDuplicateCode_def after_first_capture_def)
  note inert = raw_code_check_inert [of "[Capture 1000 ''const x = 1;'' None RequestFailed]"
      "''const x = 1;''" after_first_capture 2000 None RequestFailed]
  from inert notin
  have raw: "\<not> isDuplicateCode ''const x = 1;'' after_first_capture"
    and out: "snd (processCodeCapture 2000 ''const x = 1;'' None RequestFailed after_first_capture)
       = (if isCodeAlreadyInVault ''const x = 1;'' (existingSnippetsCache after_first_capture) None
          then SkipInVault
          else if isDuplicateCode (generateCodeHash ''const x = 1;'') after_first_capture
          then SkipRecentHash else Posted RequestFailed)"
    by blast+
  from out vault dup
  have skipped: "snd (processCodeCapture 2000 ''const x = 1;'' None RequestFailed
        after_first_capture) = SkipRecentHash"
    by simp
  from inert
  have "\<forall>x \<in> set (recentlyProcessed
            (run activated [Capture 1000 ''const x = 1;'' None RequestFailed])).
          \<exists>c'. x = generateCodeHash c'"
    by blast
  then have hashes: "\<forall>x \<in> set (recentlyProcessed after_first_capture).
      \<exists>c'. x = generateCodeHash c'"
    by (simp only: reach [symmetric])
  have member: "generateCodeHash ''const x = 1;'' \<in> set (recentlyProcessed after_first_capture)"
    using dup by (simp add: isDuplicateCode_def)
  have len: "6 < length ''const x = 1;''"
    by simp
  from hashes
  have hashes': "list_all (\<lambda>x. \<exists>c'. x = generateCodeHash c')
      (recentlyProcessed after_first_capture)"
    by (simp only: list_all_iff)
  from notin member raw skipped reach hashes' len show ?thesis
    by (intro conjI)
qed


section \<open>The renderer's local analysis\<close>

lemma calculateCodeSimilarity_app_Num:
  "\<exists>r. calculateCodeSimilarity_app a b = Num r \<and> 0 \<le> r \<and> r \<le> 1"
  using jaccard_Num [of "tokenizeCode_app a" "tokenizeCode_app b"]
  by (simp add: calculateCodeSimilarity_app_def Let_def)

lemma local_loop_append:
  "local_loop q ss acc = acc @ local_loop q ss []"
proof (induction ss arbitrary: acc)
  case Nil
  show ?case by simp
next
  case (Cons s ss)
  show ?case
    using Cons.IH [of "acc @ [x]" for x] Cons.IH [of "[x]" for x] Cons.IH [of acc]
    by (simp add: Let_def)
qed

lemma local_loop_map_filter:
  "local_loop q ss [] =
     map (suggestion_for_app q)
       (filter (\<lambda>s. num_gt (calculateCodeSimilarity_app q (code s)) (Num (3 / 10))) ss)"
proof (induction ss)
  case Nil
  show ?case by simp
next
  case (Cons s ss)
  show ?case
    using Cons.IH local_loop_append [of q ss "[x]" for x]
    by (simp add: Let_def suggestion_for_app_def)
qed

lemma local_loop_member:
  assumes "x \<in> set (local_loop q ss [])"
  shows "\<exists>s r. x = suggestion_for_app q s \<and> s \<in> set ss
           \<and> calculateCodeSimilarity_app q (code s) = Num r \<and> 3 / 10 < r \<and> r \<le> 1"
proof -
  from assms obtain s where s: "x = suggestion_for_app q s" "s \<in> set ss"
      "num_gt (calculateCodeSimilarity_app q (code s)) (Num (3 / 10))"
    by (auto simp: local_loop_map_filter)
  obtain r where r: "calculateCodeSimilarity_app q (code s) = Num r" "r \<le> 1"
    using calculateCodeSimilarity_app_Num by blast
  with s show ?thesis by auto
qed

lemma local_loop_finite:
  "\<forall>y \<in> set (local_loop q ss []). \<exists>r. confidence_app y = Num r"
  using local_loop_member by (fastforce simp: suggestion_for_app_def)

lemma by_confidence_desc_app_eq:
  "by_confidence_desc_app = (\<lambda>a b. num_sub (confidence_app b) (confidence_app a))"
  by (simp add: fun_eq_iff by_confidence_desc_app_def)

text \<open>
  C10. The renderer's local fallback analysis leaves at most 3 suggestions in
  \<open>aiSuggestions\<close> (the server ranker keeps up to 5). Each of them belongs to a cached
  snippet, carries that snippet's similarity to the analysed code as its confidence, and
  this confidence is strictly greater than 0.3. They are the first 3 of the retained
  suggestions sorted by descending confidence, so they are sorted as well.
\<close>

theorem performLocalAnalysis_top3:
  "length (aiSuggestions (performLocalAnalysis c st)) \<le> 3
   \<and> (\<forall>s \<in> set (aiSuggestions (performLocalAnalysis c st)).
         num_gt (confidence_app s) (Num (3 / 10))
         \<and> snippet_app s \<in> set (snippets st)
         \<and> confidence_app s = calculateCodeSimilarity_app c (code (snippet_app s)))
   \<and> sorted_wrt (\<lambda>a b. num_ge (confidence_app a) (confidence_app b))
        (aiSuggestions (performLocalAnalysis c st))
   \<and> aiSuggestions (performLocalAnalysis c st)
       = take 3 (array_sort by_confidence_desc_app (local_loop c (snippets st) []))
   \<and> mset (array_sort by_confidence_desc_app (local_loop c (snippets st) []))
       = mset (map (suggestion_for_app c)
                (filter (\<lambda>s. num_gt (calculateCodeSimilarity_app c (code s)) (Num (3 / 10)))
                   (snippets st)))
   \<and> sorted_wrt (\<lambda>a b. num_ge (confidence_app a) (confidence_app b))
        (array_sort by_confidence_desc_app (local_loop c (snippets st) []))"
proof -
  let ?retained = "local_loop c (snippets st) []"
  let ?full = "array_sort by_confidence_desc_app ?retained"
  note fin = local_loop_finite [of c "snippets st"]
  have out: "aiSuggestions (performLocalAnalysis c st) = take 3 ?full"
    by (simp add: performLocalAnalysis_def Let_def)
  have sorted_full: "sorted_wrt (\<lambda>a b. num_ge (confidence_app a) (confidence_app b)) ?full"
    using array_sort_sorted [OF fin] by (simp add: by_confidence_desc_app_eq)
  then have sorted_out: "sorted_wrt (\<lambda>a b. num_ge (confidence_app a) (confidence_app b))
      (take 3 ?full)"
    by (rule sorted_wrt_take)
  have perm: "mset ?full = mset ?retained"
    using array_sort_mset [OF fin] by (simp add: by_confidence_desc_app_eq)
  have members: "num_gt (confidence_app s) (Num (3 / 10))
         \<and> snippet_app s \<in> set (snippets st)
         \<and> confidence_app s = calculateCodeSimilarity_app c (code (snippet_app s))"
    if "s \<in> set (take 3 ?full)" for s
  proof -
    from that have "s \<in> set ?full" by (rule in_set_takeD)
    then have "s \<in> set ?retained" by (simp add: set_array_sort)
    then show ?thesis
      using local_loop_member [of s c "snippets st"] by (auto simp: suggestion_for_app_def)
  qed
  have len: "length (take 3 ?full) \<le> 3"
    by simp
  have perm': "mset ?full
       = mset (map (suggestion_for_app c)
                (filter (\<lambda>s. num_gt (calculateCodeSimilarity_app c (code s)) (Num (3 / 10)))
                   (snippets st)))"
    using perm by (simp only: local_loop_map_filter)
  show ?thesis
    unfolding out using len members sorted_out perm' sorted_full by blast
qed

theorem performLocalAnalysis_top3_witness:
  "map (\<lambda>s. (id_field (snippet_app s), confidence_app s))
     (aiSuggestions (performLocalAnalysis example_query example_app_state))
     = [(''4'', Num 1), (''5'', Num (2 / 3)), (''1'', Num (1 / 2))]
   \<and> suggestion_for_app example_query (stored_app ''5'' ''fetch json'')
       \<in> set (aiSuggestions (performLocalAnalysis example_query example_app_state))
   \<and> num_gt (confidence_app (suggestion_for_app example_query (stored_app ''5'' ''fetch json'')))
        (Num (3 / 10))
   \<and> length (analyzeSimilarity example_query example_corpus) = 5"
proof -
  have a: "map (\<lambda>s. (id_field (snippet_app s), confidence_app s))
     (aiSuggestions (performLocalAnalysis example_query example_app_state))
     = [(''4'', Num 1), (''5'', Num (2 / 3)), (''1'', Num (1 / 2))]"
    by code_simp
  have b: "suggestion_for_app example_query (stored_app ''5'' ''fetch json'')
       \<in> set (aiSuggestions (performLocalAnalysis example_query example_app_state))"
    by code_simp
  have c: "length (analyzeSimilarity example_query example_corpus) = 5"
    by code_simp
  from performLocalAnalysis_top3 [of example_query example_app_state] b
  have "num_gt (confidence_app (suggestion_for_app example_query (stored_app ''5'' ''fetch json'')))
        (Num (3 / 10))"
    by blast
  with a b c show ?thesis by simp
qed



end
